theory Spec2Isabelle
  imports Main "HOL-Library.Char_ord" "HOL-Library.List_Lexorder" "HOL-Library.AList"
begin

section \<open>Byte strings and the functions of Go's \<open>strings\<close> package used by the formatter\<close>

text \<open>
  A Go \<open>string\<close> or \<open>[]byte\<close> is a sequence of bytes: an Isabelle \<open>string\<close>
  (\<open>char list\<close>, a \<open>char\<close> is one byte).  The functions below follow the
  documented behaviour of \<open>strings.HasPrefix\<close>, \<open>HasSuffix\<close>, \<open>Index\<close>,
  \<open>Contains\<close>, \<open>SplitN\<close>, \<open>Split\<close>, \<open>Join\<close>, \<open>Replace\<close>, \<open>ReplaceAll\<close>,
  \<open>TrimSpace\<close> and \<open>Repeat\<close>.
\<close>

fun HasPrefix :: "string \<Rightarrow> string \<Rightarrow> bool" where
  "HasPrefix s [] = True"
| "HasPrefix [] (p # ps) = False"
| "HasPrefix (c # cs) (p # ps) = (c = p \<and> HasPrefix cs ps)"

definition HasSuffix :: "string \<Rightarrow> string \<Rightarrow> bool" where
  "HasSuffix s suffix = HasPrefix (rev s) (rev suffix)"

text \<open>\<open>strings.Index\<close>: the offset of the first occurrence, \<open>None\<close> for Go's \<open>-1\<close>.\<close>

fun Index :: "string \<Rightarrow> string \<Rightarrow> nat option" where
  "Index [] sub = (if sub = [] then Some 0 else None)"
| "Index (c # cs) sub =
     (if HasPrefix (c # cs) sub then Some 0 else map_option Suc (Index cs sub))"

definition Contains :: "string \<Rightarrow> string \<Rightarrow> bool" where
  "Contains s sub = (Index s sub \<noteq> None)"

text \<open>
  The loop of \<open>strings.genSplit\<close> for a non-empty separator: cut at the next occurrence
  while occurrences and the allowed number of cuts last.  \<open>Split\<close> allows as many cuts as
  there are occurrences (never more than the length of the string), \<open>SplitN\<close> with a
  positive \<open>n\<close> allows \<open>n - 1\<close>, with \<open>n = 0\<close> it returns no piece and with a negative
  \<open>n\<close> it is \<open>Split\<close>.  The program calls both with one-byte separators only; the
  explosion into UTF-8 sequences that Go performs for an empty separator is not modelled.
\<close>

fun genSplit :: "string \<Rightarrow> string \<Rightarrow> nat \<Rightarrow> string list" where
  "genSplit s sep 0 = [s]"
| "genSplit s sep (Suc n) =
     (case Index s sep of
        None \<Rightarrow> [s]
      | Some m \<Rightarrow> take m s # genSplit (drop (m + length sep) s) sep n)"

definition Split :: "string \<Rightarrow> string \<Rightarrow> string list" where
  "Split s sep = genSplit s sep (length s)"

definition SplitN :: "string \<Rightarrow> string \<Rightarrow> int \<Rightarrow> string list" where
  "SplitN s sep n =
     (if n = 0 then [] else if n < 0 then Split s sep else genSplit s sep (nat n - 1))"

fun Join :: "string list \<Rightarrow> string \<Rightarrow> string" where
  "Join [] sep = []"
| "Join [x] sep = x"
| "Join (x # y # ys) sep = x @ sep @ Join (y # ys) sep"

text \<open>
  \<open>strings.Replace(s, old, new, n)\<close>: the first \<open>n\<close> non-overlapping occurrences from the
  left, all of them for a negative \<open>n\<close>.  An empty \<open>old\<close> matches at the start of the
  string, which is all that one replacement needs; further matches of an empty \<open>old\<close>
  (after each UTF-8 sequence) are not modelled, the program never asks for them.
\<close>

fun replaceLoop :: "string \<Rightarrow> string \<Rightarrow> string \<Rightarrow> nat \<Rightarrow> string" where
  "replaceLoop s old new 0 = s"
| "replaceLoop s old new (Suc n) =
     (case Index s old of
        None \<Rightarrow> s
      | Some j \<Rightarrow> take j s @ new @ replaceLoop (drop (j + length old) s) old new n)"

definition Replace :: "string \<Rightarrow> string \<Rightarrow> string \<Rightarrow> int \<Rightarrow> string" where
  "Replace s old new n =
     (if old = new \<or> n = 0 then s
      else replaceLoop s old new (if n < 0 then length s else nat n))"

definition ReplaceAll :: "string \<Rightarrow> string \<Rightarrow> string \<Rightarrow> string" where
  "ReplaceAll s old new = Replace s old new (- 1)"

text \<open>
  \<open>strings.TrimSpace\<close> removes the leading and trailing white space as Unicode defines
  it (\<open>unicode.IsSpace\<close>): the six ASCII characters tab, line feed, vertical tab, form
  feed, carriage return and space, and the code points U+0085, U+00A0, U+1680,
  U+2000 to U+200A, U+2028, U+2029, U+202F, U+205F and U+3000 in their UTF-8 encoding.
  A byte that does not start (or end) one of these encodings stops the trimming, as the
  decoding of an invalid sequence to the error rune does in Go.
\<close>

definition asciiSpace :: "char \<Rightarrow> bool" where
  "asciiSpace c = (c = CHR 0x09 \<or> c = CHR 0x0A \<or> c = CHR 0x0B \<or> c = CHR 0x0C
                   \<or> c = CHR 0x0D \<or> c = CHR 0x20)"

text \<open>The width in bytes of a white-space character at the start of the string, 0 if there is none.\<close>

fun leadingSpace :: "string \<Rightarrow> nat" where
  "leadingSpace [] = 0"
| "leadingSpace (c # cs) =
     (if asciiSpace c then 1
      else if c = CHR 0xC2 then
        (case cs of
           d # _ \<Rightarrow> if d = CHR 0x85 \<or> d = CHR 0xA0 then 2 else 0
         | [] \<Rightarrow> 0)
      else if c = CHR 0xE1 then
        (case cs of
           d # e # _ \<Rightarrow> if d = CHR 0x9A \<and> e = CHR 0x80 then 3 else 0
         | _ \<Rightarrow> 0)
      else if c = CHR 0xE2 then
        (case cs of
           d # e # _ \<Rightarrow>
             if d = CHR 0x80 \<and> ((0x80::nat) \<le> of_char e \<and> of_char e \<le> (0x8A::nat)
                                \<or> e = CHR 0xA8 \<or> e = CHR 0xA9 \<or> e = CHR 0xAF) then 3
             else if d = CHR 0x81 \<and> e = CHR 0x9F then 3
             else 0
         | _ \<Rightarrow> 0)
      else if c = CHR 0xE3 then
        (case cs of
           d # e # _ \<Rightarrow> if d = CHR 0x80 \<and> e = CHR 0x80 then 3 else 0
         | _ \<Rightarrow> 0)
      else 0)"

text \<open>
  The same at the end of the string.  The last character's encoding is read backwards, so
  the argument is the reversed string: a continuation byte first, its lead byte last.
\<close>

fun trailingSpace :: "string \<Rightarrow> nat" where
  "trailingSpace [] = 0"
| "trailingSpace (c # cs) =
     (if asciiSpace c then 1
      else
        (case cs of
           [] \<Rightarrow> 0
         | d # ds \<Rightarrow>
             if d = CHR 0xC2 \<and> (c = CHR 0x85 \<or> c = CHR 0xA0) then 2
             else
               (case ds of
                  [] \<Rightarrow> 0
                | e # _ \<Rightarrow>
                    if e = CHR 0xE1 \<and> d = CHR 0x9A \<and> c = CHR 0x80 then 3
                    else if e = CHR 0xE2 \<and> d = CHR 0x80
                            \<and> ((0x80::nat) \<le> of_char c \<and> of_char c \<le> (0x8A::nat)
                                \<or> c = CHR 0xA8 \<or> c = CHR 0xA9 \<or> c = CHR 0xAF) then 3
                    else if e = CHR 0xE2 \<and> d = CHR 0x81 \<and> c = CHR 0x9F then 3
                    else if e = CHR 0xE3 \<and> d = CHR 0x80 \<and> c = CHR 0x80 then 3
                    else 0)))"

lemma leadingSpace_le: "leadingSpace s \<le> length s"
  by (cases s) (auto split: list.splits)

lemma trailingSpace_le: "trailingSpace s \<le> length s"
  by (cases s) (auto split: list.splits)

function TrimLeft :: "string \<Rightarrow> string" where
  "TrimLeft s = (if leadingSpace s = 0 then s else TrimLeft (drop (leadingSpace s) s))"
  by pat_completeness auto
termination
proof (relation "measure length")
  fix s :: string
  assume "leadingSpace s \<noteq> 0"
  moreover have "s \<noteq> []" using calculation by auto
  ultimately show "(drop (leadingSpace s) s, s) \<in> measure length" by simp
qed simp

function trimRev :: "string \<Rightarrow> string" where
  "trimRev r = (if trailingSpace r = 0 then r else trimRev (drop (trailingSpace r) r))"
  by pat_completeness auto
termination
proof (relation "measure length")
  fix r :: string
  assume "trailingSpace r \<noteq> 0"
  moreover have "r \<noteq> []" using calculation by auto
  ultimately show "(drop (trailingSpace r) r, r) \<in> measure length" by simp
qed simp

declare TrimLeft.simps [simp del] trimRev.simps [simp del]

definition TrimRight :: "string \<Rightarrow> string" where
  "TrimRight s = rev (trimRev (rev s))"

definition TrimSpace :: "string \<Rightarrow> string" where
  "TrimSpace s = TrimRight (TrimLeft s)"


section \<open>The unquoted-key repair of \<open>AutoCorrect\<close>\<close>

text \<open>
  The body of the loop over the lines in \<open>AutoCorrect\<close>: the new value of \<open>lines[i]\<close>
  for the line \<open>line\<close>.  \<open>parts[0]\<close> is an indexing that panics on an empty slice;
  \<open>None\<close> stands for that panic.
\<close>

definition fixLine :: "string \<Rightarrow> string option" where
  "fixLine line =
     (if Contains line [CHR 0x3A] then
        (case SplitN line [CHR 0x3A] 2 of
           [] \<Rightarrow> None
         | p0 # _ \<Rightarrow>
             (let key = TrimSpace p0 in
              if \<not> HasPrefix key [CHR 0x22] \<and> \<not> HasSuffix key [CHR 0x22]
              then Some (Replace line key ([CHR 0x22] @ key @ [CHR 0x22]) 1)
              else Some line))
      else Some line)"

subsection \<open>Facts about the string functions\<close>

lemma HasPrefix_iff: "HasPrefix s p \<longleftrightarrow> (\<exists>t. s = p @ t)"
  by (induction s p rule: HasPrefix.induct) auto

lemma HasPrefix_byte: "HasPrefix s [c] \<longleftrightarrow> s \<noteq> [] \<and> hd s = c"
  by (cases s) auto

lemma HasSuffix_byte: "HasSuffix s [c] \<longleftrightarrow> s \<noteq> [] \<and> last s = c"
  by (cases s rule: rev_cases) (auto simp: HasSuffix_def)

lemma Index_SomeD:
  "Index s sub = Some i \<Longrightarrow>
     i \<le> length s \<and> HasPrefix (drop i s) sub \<and> (\<forall>j<i. \<not> HasPrefix (drop j s) sub)"
proof (induction s arbitrary: i)
  case Nil
  then show ?case by (auto split: if_splits)
next
  case (Cons c cs)
  show ?case
  proof (cases "HasPrefix (c # cs) sub")
    case True
    with Cons.prems show ?thesis by simp
  next
    case False
    with Cons.prems obtain k where k: "Index cs sub = Some k" "i = Suc k" by auto
    from Cons.IH[OF k(1)] have ih:
      "k \<le> length cs" "HasPrefix (drop k cs) sub" "\<forall>j<k. \<not> HasPrefix (drop j cs) sub"
      by auto
    have "\<not> HasPrefix (drop j (c # cs)) sub" if "j < i" for j
    proof (cases j)
      case 0
      with False show ?thesis by simp
    next
      case (Suc j')
      with that k(2) ih(3) show ?thesis by simp
    qed
    with ih k(2) show ?thesis by simp
  qed
qed

lemma Index_None_iff:
  "Index s sub = None \<longleftrightarrow> (\<forall>j\<le>length s. \<not> HasPrefix (drop j s) sub)"
proof (induction s)
  case Nil
  then show ?case by (cases sub) auto
next
  case (Cons c cs)
  have "(\<forall>j\<le>Suc (length cs). \<not> HasPrefix (drop j (c # cs)) sub)
        \<longleftrightarrow> \<not> HasPrefix (c # cs) sub \<and> (\<forall>j\<le>length cs. \<not> HasPrefix (drop j cs) sub)"
    (is "?L \<longleftrightarrow> ?R")
  proof
    assume l: ?L
    have "\<not> HasPrefix (drop j cs) sub" if "j \<le> length cs" for j
      using l[rule_format, of "Suc j"] that by simp
    moreover have "\<not> HasPrefix (c # cs) sub" using l[rule_format, of 0] by simp
    ultimately show ?R by blast
  next
    assume r: ?R
    show ?L
    proof (intro allI impI)
      fix j assume "j \<le> Suc (length cs)"
      then show "\<not> HasPrefix (drop j (c # cs)) sub"
        using r by (cases j) auto
    qed
  qed
  with Cons show ?case by auto
qed

lemma Index_infix: "Index (a @ k @ b) k \<noteq> None"
proof -
  have "HasPrefix (drop (length a) (a @ k @ b)) k" by (simp add: HasPrefix_iff)
  moreover have "length a \<le> length (a @ k @ b)" by simp
  ultimately show ?thesis unfolding Index_None_iff by blast
qed

lemma Index_byte:
  "Index s [c] = (if c \<in> set s then Some (length (takeWhile (\<lambda>x. x \<noteq> c) s)) else None)"
  by (induction s) auto

lemma Contains_byte: "Contains s [c] \<longleftrightarrow> c \<in> set s"
  by (simp add: Contains_def Index_byte)

lemma SplitN_byte_2:
  "SplitN s [c] 2 =
     (if c \<in> set s
      then [takeWhile (\<lambda>x. x \<noteq> c) s, drop (Suc (length (takeWhile (\<lambda>x. x \<noteq> c) s))) s]
      else [s])"
proof -
  have "nat 2 - 1 = Suc 0" by simp
  then show ?thesis
    by (simp add: SplitN_def Index_byte takeWhile_eq_take[symmetric])
qed

lemma TrimLeft_suffix: "\<exists>a. s = a @ TrimLeft s"
proof (induction s rule: TrimLeft.induct)
  case (1 s)
  show ?case
  proof (cases "leadingSpace s = 0")
    case True
    then have "TrimLeft s = s" by (subst TrimLeft.simps) simp
    then show ?thesis by simp
  next
    case False
    from 1[OF False] obtain a where a: "drop (leadingSpace s) s = a @ TrimLeft (drop (leadingSpace s) s)"
      by blast
    have eq: "TrimLeft s = TrimLeft (drop (leadingSpace s) s)"
      using False by (subst TrimLeft.simps) simp
    have "s = take (leadingSpace s) s @ drop (leadingSpace s) s" by simp
    also have "\<dots> = (take (leadingSpace s) s @ a) @ TrimLeft s"
      using a eq by simp
    finally show ?thesis by blast
  qed
qed

lemma trimRev_suffix: "\<exists>a. r = a @ trimRev r"
proof (induction r rule: trimRev.induct)
  case (1 r)
  show ?case
  proof (cases "trailingSpace r = 0")
    case True
    then have "trimRev r = r" by (subst trimRev.simps) simp
    then show ?thesis by simp
  next
    case False
    from 1[OF False] obtain a where a: "drop (trailingSpace r) r = a @ trimRev (drop (trailingSpace r) r)"
      by blast
    have eq: "trimRev r = trimRev (drop (trailingSpace r) r)"
      using False by (subst trimRev.simps) simp
    have "r = take (trailingSpace r) r @ drop (trailingSpace r) r" by simp
    also have "\<dots> = (take (trailingSpace r) r @ a) @ trimRev r"
      using a eq by simp
    finally show ?thesis by blast
  qed
qed

lemma TrimRight_prefix: "\<exists>b. s = TrimRight s @ b"
proof -
  obtain a where "rev s = a @ trimRev (rev s)" using trimRev_suffix by blast
  then have "s = rev (trimRev (rev s)) @ rev a"
    by (metis rev_append rev_rev_ident)
  then show ?thesis unfolding TrimRight_def by blast
qed

lemma TrimSpace_infix: "\<exists>a b. s = a @ TrimSpace s @ b"
proof -
  obtain a where a: "s = a @ TrimLeft s" using TrimLeft_suffix by blast
  obtain b where b: "TrimLeft s = TrimRight (TrimLeft s) @ b" using TrimRight_prefix by blast
  from a b have "s = a @ TrimSpace s @ b" unfolding TrimSpace_def by simp
  then show ?thesis by blast
qed

lemma Replace_first:
  assumes "old \<noteq> new" and "Index s old = Some j"
  shows "Replace s old new 1 = take j s @ new @ drop (j + length old) s"
proof -
  have "nat 1 = Suc 0" by simp
  with assms show ?thesis by (simp add: Replace_def)
qed


lemma HasPrefix_take: "HasPrefix s p \<longleftrightarrow> take (length p) s = p"
proof
  assume "HasPrefix s p"
  then obtain t where "s = p @ t" unfolding HasPrefix_iff by blast
  then show "take (length p) s = p" by simp
next
  assume "take (length p) s = p"
  then have "s = p @ drop (length p) s" by (metis append_take_drop_id)
  then show "HasPrefix s p" unfolding HasPrefix_iff by blast
qed

section \<open>The source resolver: \<open>getInput\<close> and \<open>readFromURL\<close>\<close>

text \<open>
  What \<open>getInput\<close> reads from outside the program, as explicit values:
  the result of \<open>os.Stdin.Stat()\<close> (an error, or whether the mode of standard input has
  the bit \<open>os.ModeCharDevice\<close>, which a terminal has and a pipe or a redirected file has
  not), what \<open>io.ReadAll(os.Stdin)\<close> delivers, the answer to the trust prompt (an error of
  \<open>fmt.Scanln\<close>, or whether the answer equals \<open>y\<close> or \<open>yes\<close> under \<open>strings.EqualFold\<close>),
  the outcome of \<open>http.Get\<close> for each URL, and whether \<open>url.Parse\<close> accepts a token.
\<close>

record http_response =
  StatusCode :: int
  Body :: "string + string"

record world =
  stdin_stat :: "string + bool"
  stdin_bytes :: "string + string"
  prompt_answer :: "string + bool"
  http_get :: "string \<Rightarrow> string + http_response"
  url_parse_ok :: "string \<Rightarrow> bool"

datatype resolve_error =
    StatFailed string
  | NoInputInPipe
  | ReadFailed string
  | InvalidURL
  | PromptFailed string
  | URLAccessDenied
  | GetFailed string
  | HTTPStatus int

text \<open>
  \<open>readFromURL\<close>: the error of \<open>http.Get\<close> is returned as it is; a status code other than
  \<open>http.StatusOK\<close> (200) is the error "HTTP request failed with status code"; otherwise
  the result is that of \<open>io.ReadAll(resp.Body)\<close>.
\<close>

definition readFromURL :: "world \<Rightarrow> string \<Rightarrow> resolve_error + string" where
  "readFromURL w url =
     (case http_get w url of
        Inl e \<Rightarrow> Inl (GetFailed e)
      | Inr resp \<Rightarrow>
          if StatusCode resp \<noteq> 200 then Inl (HTTPStatus (StatusCode resp))
          else (case Body resp of Inl e \<Rightarrow> Inl (ReadFailed e) | Inr b \<Rightarrow> Inr b))"

text \<open>
  \<open>getInput\<close> (the revision with \<open>url.Parse\<close>).  \<open>args\<close> is \<open>flag.Args()\<close>.  After a
  successful \<open>url.Parse\<close> the pointer \<open>inputURL\<close> is never \<open>nil\<close>, so the test
  \<open>inputURL != nil\<close> always succeeds and the statements after it (reading a file, the
  literal JSON string) are never reached; they are left out.
\<close>

definition getInput :: "world \<Rightarrow> bool \<Rightarrow> string list \<Rightarrow> resolve_error + string" where
  "getInput w trustAllURLs args =
     (case args of
        [] \<Rightarrow>
          (case stdin_stat w of
             Inl e \<Rightarrow> Inl (StatFailed e)
           | Inr charDevice \<Rightarrow>
               if charDevice
               then (case stdin_bytes w of Inl e \<Rightarrow> Inl (ReadFailed e) | Inr b \<Rightarrow> Inr b)
               else Inl NoInputInPipe)
      | a # _ \<Rightarrow>
          (let input = TrimSpace a in
           if \<not> url_parse_ok w input then Inl InvalidURL
           else if \<not> trustAllURLs then
             (case prompt_answer w of
                Inl e \<Rightarrow> Inl (PromptFailed e)
              | Inr yes \<Rightarrow> if \<not> yes then Inl URLAccessDenied else readFromURL w input)
           else readFromURL w input))"

text \<open>
  The older revision of \<open>getInput\<close> in \<open>cmd/fj/main.go\<close> with no argument: it reads
  standard input whatever it is attached to.
\<close>

definition getInput_cmd_noargs :: "world \<Rightarrow> resolve_error + string" where
  "getInput_cmd_noargs w = (case stdin_bytes w of Inl e \<Rightarrow> Inl (ReadFailed e) | Inr b \<Rightarrow> Inr b)"

text \<open>
  Two environments: standard input is a pipe that carries the two bytes of an empty JSON
  object (no terminal, so the mode has no \<open>ModeCharDevice\<close> bit), and a server that
  answers every request with the given status code and the same two bytes.
\<close>

definition piped_world :: world where
  "piped_world =
     \<lparr> stdin_stat = Inr False, stdin_bytes = Inr ''{}'', prompt_answer = Inr False,
       http_get = (\<lambda>u. Inl ''no network''), url_parse_ok = (\<lambda>u. True) \<rparr>"

definition server_world :: "int \<Rightarrow> world" where
  "server_world code =
     \<lparr> stdin_stat = Inr True, stdin_bytes = Inr [], prompt_answer = Inr True,
       http_get = (\<lambda>u. Inr \<lparr> StatusCode = code, Body = Inr ''{}'' \<rparr>),
       url_parse_ok = (\<lambda>u. True) \<rparr>"

section \<open>Claims about the auto-correction of keys and the resolver\<close>

text \<open>
  Claim C3, as amended.  For a line with a colon, let \<open>K\<close> be the text before the first
  colon with its surrounding white space trimmed.  When \<open>K\<close> neither begins nor ends with a
  double quote, the repair puts the first occurrence of \<open>K\<close> on the line between double
  quotes and leaves the text before and after it as it was; when \<open>K\<close> begins or ends with a
  double quote the line is unchanged.  (The claim as written asks for the quotes whenever
  \<open>K\<close> does not both begin and end with one.)
\<close>

theorem fixLine_quotes_bare_key:
  assumes "CHR 0x3A \<in> set line"
    and "K = TrimSpace (takeWhile (\<lambda>c. c \<noteq> CHR 0x3A) line)"
  shows "if (K = [] \<or> hd K \<noteq> CHR 0x22) \<and> (K = [] \<or> last K \<noteq> CHR 0x22)
         then \<exists>pre post. line = pre @ K @ post
                \<and> (\<forall>n<length pre. take (length K) (drop n line) \<noteq> K)
                \<and> fixLine line = Some (pre @ [CHR 0x22] @ K @ [CHR 0x22] @ post)
         else fixLine line = Some line"
proof -
  let ?p0 = "takeWhile (\<lambda>c. c \<noteq> CHR 0x3A) line"
  have split: "SplitN line [CHR 0x3A] 2
                 = [?p0, drop (Suc (length ?p0)) line]"
    using assms(1) by (simp add: SplitN_byte_2)
  have cont: "Contains line [CHR 0x3A]" using assms(1) by (simp add: Contains_byte)
  show ?thesis
  proof (cases "(K = [] \<or> hd K \<noteq> CHR 0x22) \<and> (K = [] \<or> last K \<noteq> CHR 0x22)")
    case False
    then have "HasPrefix K [CHR 0x22] \<or> HasSuffix K [CHR 0x22]"
      by (auto simp: HasPrefix_byte HasSuffix_byte)
    then have "fixLine line = Some line"
      using cont split assms(2) by (auto simp: fixLine_def Let_def)
    then show ?thesis by (subst if_not_P[OF False])
  next
    case True
    then have bare: "\<not> HasPrefix K [CHR 0x22]" "\<not> HasSuffix K [CHR 0x22]"
      by (auto simp: HasPrefix_byte HasSuffix_byte)
    let ?new = "[CHR 0x22] @ K @ [CHR 0x22]"
    have fl: "fixLine line = Some (Replace line K ?new 1)"
      using cont split assms(2) bare by (simp add: fixLine_def Let_def)
    obtain a b where "?p0 = a @ K @ b" using TrimSpace_infix assms(2) by blast
    then have "line = a @ K @ (b @ dropWhile (\<lambda>c. c \<noteq> CHR 0x3A) line)"
      by (metis append.assoc takeWhile_dropWhile_id)
    then have "Index line K \<noteq> None" by (metis Index_infix)
    then obtain j where j: "Index line K = Some j" by blast
    from Index_SomeD[OF j] have jle: "j \<le> length line"
      and pre: "HasPrefix (drop j line) K"
      and first: "\<forall>n<j. \<not> HasPrefix (drop n line) K" by auto
    have ne: "K \<noteq> ?new"
    proof
      assume "K = ?new"
      then have "length K = length ?new" by simp
      then show False by simp
    qed
    have rep: "Replace line K ?new 1 = take j line @ ?new @ drop (j + length K) line"
      by (rule Replace_first[OF ne j])
    from pre have "take (length K) (drop j line) = K" by (simp add: HasPrefix_take)
    then have "drop j line = K @ drop (length K) (drop j line)"
      by (metis append_take_drop_id)
    then have "line = take j line @ K @ drop (j + length K) line"
      by (metis append_take_drop_id drop_drop add.commute)
    moreover have "\<forall>n<length (take j line). take (length K) (drop n line) \<noteq> K"
      using first jle by (simp add: HasPrefix_take)
    moreover have "fixLine line = Some (take j line @ [CHR 0x22] @ K @ [CHR 0x22] @ drop (j + length K) line)"
      using fl rep by simp
    ultimately have "\<exists>pre post. line = pre @ K @ post
                \<and> (\<forall>n<length pre. take (length K) (drop n line) \<noteq> K)
                \<and> fixLine line = Some (pre @ [CHR 0x22] @ K @ [CHR 0x22] @ post)"
      by blast
    then show ?thesis by (subst if_P[OF True])
  qed
qed


theorem fixLine_quotes_bare_key_witness:
  \<open>(\<exists>pre post. ''{name:"John","age":30,}'' = pre @ ''{name'' @ post
       \<and> (\<forall>n<length pre. take (length ''{name'') (drop n ''{name:"John","age":30,}'') \<noteq> ''{name'')
       \<and> fixLine ''{name:"John","age":30,}'' = Some (pre @ [CHR 0x22] @ ''{name'' @ [CHR 0x22] @ post))
   \<and> fixLine ''{name:"John","age":30,}'' = Some ''"{name":"John","age":30,}''\<close>
proof -
  have h1: \<open>CHR 0x3A \<in> set ''{name:"John","age":30,}''\<close> by simp
  have h2: \<open>''{name'' = TrimSpace (takeWhile (\<lambda>c. c \<noteq> CHR 0x3A) ''{name:"John","age":30,}'')\<close>
    by code_simp
  have h3: \<open>fixLine ''{name:"John","age":30,}'' = Some ''"{name":"John","age":30,}''\<close>
    by code_simp
  show ?thesis using fixLine_quotes_bare_key[OF h1 h2] h3 by simp
qed

text \<open>
  The claim C3 as it is written fails on the line of the repository's own test
  "Already valid JSON": the text before the first colon is an opening brace and a quoted
  key, which ends with a double quote and does not begin with one, so it does not both
  begin and end with a double quote; yet the line is left as it is and not changed to
  the line with that text between quotes.
\<close>

theorem fixLine_claim_counterexample:
  \<open>TrimSpace (takeWhile (\<lambda>c. c \<noteq> CHR 0x3A) ''{"name":"John","age":30}'') = ''{"name"''
   \<and> \<not> (hd ''{"name"'' = CHR 0x22 \<and> last ''{"name"'' = CHR 0x22)
   \<and> fixLine ''{"name":"John","age":30}'' = Some ''{"name":"John","age":30}''
   \<and> fixLine ''{"name":"John","age":30}'' \<noteq> Some ''"{"name"":"John","age":30}''\<close>
proof -
  have k: \<open>TrimSpace (takeWhile (\<lambda>c. c \<noteq> CHR 0x3A) ''{"name":"John","age":30}'') = ''{"name"''\<close>
    by code_simp
  have f: \<open>fixLine ''{"name":"John","age":30}'' = Some ''{"name":"John","age":30}''\<close>
    by code_simp
  show ?thesis using k f by simp
qed

text \<open>
  Claim C5 on the code.  With no argument \<open>getInput\<close> reads standard input exactly when
  its mode has the character-device bit (a terminal), and answers "no input file specified
  in pipe" exactly when it has not (a pipe or a redirected file), whatever the stream
  carries.  So a pipe with data pending is refused, where the claim (and the help text
  \<open>cat file.json | fj\<close>) says it is read; the older revision reads it.
\<close>

theorem getInput_noargs_pipe_refused:
  "stdin_bytes piped_world = Inr ''{}''
   \<and> getInput piped_world trust [] = Inl NoInputInPipe
   \<and> getInput_cmd_noargs piped_world = Inr ''{}''"
  by (simp add: getInput_def getInput_cmd_noargs_def piped_world_def)

lemma getInput_noargs_cases:
  "getInput w trust [] =
     (case stdin_stat w of
        Inl e \<Rightarrow> Inl (StatFailed e)
      | Inr True \<Rightarrow> (case stdin_bytes w of Inl e \<Rightarrow> Inl (ReadFailed e) | Inr b \<Rightarrow> Inr b)
      | Inr False \<Rightarrow> Inl NoInputInPipe)"
  by (simp add: getInput_def split: sum.splits bool.splits)

text \<open>
  Claim C6, as amended.  When \<open>http.Get\<close> delivers a response, \<open>readFromURL\<close> fails with
  the HTTP error carrying the status code exactly when the status code is not 200; for
  the status code 200 it returns what reading the body gives, the body's bytes when the
  read succeeds.  (The claim as written promises the body for every status from 200 to 299.)
\<close>

theorem readFromURL_status_200_only:
  assumes "http_get w url = Inr resp"
  shows "(readFromURL w url = Inl (HTTPStatus (StatusCode resp)) \<longleftrightarrow> StatusCode resp \<noteq> 200)
         \<and> ((\<exists>c. readFromURL w url = Inl (HTTPStatus c)) \<longleftrightarrow> StatusCode resp \<noteq> 200)
         \<and> (StatusCode resp = 200 \<longrightarrow>
              readFromURL w url = (case Body resp of Inl e \<Rightarrow> Inl (ReadFailed e) | Inr b \<Rightarrow> Inr b))
         \<and> (StatusCode resp = 200 \<longrightarrow> (\<forall>b. Body resp = Inr b \<longrightarrow> readFromURL w url = Inr b))"
  using assms by (auto simp: readFromURL_def split: sum.splits)

theorem readFromURL_status_200_only_witness:
  "http_get (server_world 200) ''https://example.com/d.json''
     = Inr \<lparr> StatusCode = 200, Body = Inr ''{}'' \<rparr>
   \<and> readFromURL (server_world 200) ''https://example.com/d.json'' = Inr ''{}''"
proof -
  have h: "http_get (server_world 200) ''https://example.com/d.json''
             = Inr \<lparr> StatusCode = 200, Body = Inr ''{}'' \<rparr>"
    by (simp add: server_world_def)
  show ?thesis using readFromURL_status_200_only[OF h] h by simp
qed

text \<open>
  The claim C6 as it is written fails for the status 201 (Created), which is in the range
  from 200 to 299: the body is not returned, the HTTP error with the status 201 is.
\<close>

theorem readFromURL_2xx_counterexample:
  "(200::int) \<le> 201 \<and> (201::int) < 300
   \<and> http_get (server_world 201) ''https://example.com/d.json''
       = Inr \<lparr> StatusCode = 201, Body = Inr ''{}'' \<rparr>
   \<and> readFromURL (server_world 201) ''https://example.com/d.json'' = Inl (HTTPStatus 201)"
  by (simp add: readFromURL_def server_world_def)

end
